theory Spec2Isabelle
  imports Complex_Main
begin

section \<open>D1-backed rate limiting (src/services/ratelimit.ts)\<close>

text \<open>
  A shallow embedding of \<^verbatim>\<open>RateLimitService\<close> and \<^verbatim>\<open>getClientIdentifier\<close>.

  \<^item> JavaScript numbers are modelled as \<^typ>\<open>int\<close>: every number of this file is an
    integer (timestamps in milliseconds or seconds, counters), far inside the range on
    which doubles are exact.
  \<^item> \<^verbatim>\<open>Date.now()\<close> is an explicit argument \<open>now\<close> (milliseconds) of each operation.
  \<^item> Strings are \<^typ>\<open>string\<close>: lists of 8-bit code units. Header values of the Fetch API
    are byte strings, so every identifier that \<^verbatim>\<open>getClientIdentifier\<close> produces is of this
    kind.
  \<^item> The two D1 tables are finite maps from their primary key to the remaining columns.
    Each \<^verbatim>\<open>prepare(...).run()\<close> / \<^verbatim>\<open>.first()\<close> is one atomic statement of the store and
    is one function on the table.
  \<^item> The service raises no error of its own. A failing store call rejects the promise of
    the operation before anything else happens; the model describes the calls whose store
    statements succeed.
\<close>

subsection \<open>Rate limit configuration\<close>

definition LOGIN_MAX_ATTEMPTS :: int where
  "LOGIN_MAX_ATTEMPTS = 5"

definition LOGIN_LOCKOUT_MINUTES :: int where
  "LOGIN_LOCKOUT_MINUTES = 2"

definition API_WRITE_REQUESTS_PER_MINUTE :: int where
  "API_WRITE_REQUESTS_PER_MINUTE = 120"

definition API_WINDOW_SECONDS :: int where
  "API_WINDOW_SECONDS = 60"

subsection \<open>JavaScript primitives used by the service\<close>

text \<open>
  \<^verbatim>\<open>String.prototype.trim\<close> removes WhiteSpace and LineTerminator code points from both
  ends. Among the code units below 256 these are TAB, LF, VT, FF, CR, SPACE and NBSP.
\<close>

definition is_js_space :: "char \<Rightarrow> bool" where
  "is_js_space c = (of_char c \<in> {9, 10, 11, 12, 13, 32, 160 :: nat})"

definition js_trim :: "string \<Rightarrow> string" where
  "js_trim s = rev (dropWhile is_js_space (rev (dropWhile is_js_space s)))"

text \<open>\<^verbatim>\<open>a % b\<close> on numbers: the remainder takes the sign of the dividend.\<close>

definition js_rem :: "int \<Rightarrow> int \<Rightarrow> int" where
  "js_rem a b = sgn a * (\<bar>a\<bar> mod \<bar>b\<bar>)"

text \<open>\<^verbatim>\<open>Math.ceil(a / 1000)\<close> for an integer \<open>a\<close>.\<close>

definition ceil_div_1000 :: "int \<Rightarrow> int" where
  "ceil_div_1000 a = - ((- a) div 1000)"

text \<open>Truthiness: of numbers, \<open>0\<close> is falsy, so \<^verbatim>\<open>a || d\<close> is \<open>d\<close> when \<open>a\<close> is \<open>0\<close>; of a
  nullable number, \<^verbatim>\<open>null\<close> and \<open>0\<close> are falsy; of a nullable string, \<^verbatim>\<open>null\<close> and the empty
  string are falsy.\<close>

definition js_or :: "int \<Rightarrow> int \<Rightarrow> int" where
  "js_or a d = (if a \<noteq> 0 then a else d)"

definition truthy_num :: "int option \<Rightarrow> bool" where
  "truthy_num v = (case v of None \<Rightarrow> False | Some n \<Rightarrow> n \<noteq> 0)"

definition truthy_str :: "string option \<Rightarrow> bool" where
  "truthy_str v = (case v of None \<Rightarrow> False | Some s \<Rightarrow> s \<noteq> [])"

subsection \<open>The store\<close>

text \<open>Table \<^verbatim>\<open>login_attempts_ip(ip PRIMARY KEY, attempts NOT NULL, locked_until, updated_at NOT NULL)\<close>.\<close>

record login_row =
  attempts :: int
  locked_until :: "int option"
  updated_at :: int

text \<open>Table \<^verbatim>\<open>api_rate_limits\<close>, keyed by \<^verbatim>\<open>(identifier, window_start)\<close>, with the column
  \<^verbatim>\<open>count\<close>. The static flag \<^verbatim>\<open>loginIpTableReady\<close> is part of the state.\<close>

record rl_state =
  loginIpTableReady :: bool
  login_attempts_ip :: "string \<rightharpoonup> login_row"
  api_rate_limits :: "(string \<times> int) \<rightharpoonup> int"

definition init_state :: rl_state where
  "init_state = \<lparr>loginIpTableReady = False, login_attempts_ip = Map.empty,
     api_rate_limits = Map.empty\<rparr>"

text \<open>\<^verbatim>\<open>CREATE TABLE IF NOT EXISTS\<close> leaves the rows of the table as they are; the call is
  skipped once the flag is set.\<close>

definition ensureLoginIpTable :: "rl_state \<Rightarrow> rl_state" where
  "ensureLoginIpTable s =
     (if loginIpTableReady s then s else s\<lparr>loginIpTableReady := True\<rparr>)"

text \<open>\<^verbatim>\<open>INSERT INTO login_attempts_ip(ip, attempts, locked_until, updated_at) VALUES(?, 1, NULL, ?)
  ON CONFLICT(ip) DO UPDATE SET attempts = attempts + 1, updated_at = excluded.updated_at\<close>\<close>

definition upsert_attempt :: "(string \<rightharpoonup> login_row) \<Rightarrow> string \<Rightarrow> int \<Rightarrow> (string \<rightharpoonup> login_row)" where
  "upsert_attempt tbl key now =
     (case tbl key of
        None \<Rightarrow> tbl(key \<mapsto> \<lparr>attempts = 1, locked_until = None, updated_at = now\<rparr>)
      | Some r \<Rightarrow> tbl(key \<mapsto> r\<lparr>attempts := attempts r + 1, updated_at := now\<rparr>))"

text \<open>\<^verbatim>\<open>UPDATE login_attempts_ip SET locked_until = ?, updated_at = ? WHERE ip = ?\<close>\<close>

definition update_lock :: "(string \<rightharpoonup> login_row) \<Rightarrow> int \<Rightarrow> int \<Rightarrow> string \<Rightarrow> (string \<rightharpoonup> login_row)" where
  "update_lock tbl lockedUntil now key =
     (case tbl key of
        None \<Rightarrow> tbl
      | Some r \<Rightarrow> tbl(key \<mapsto> r\<lparr>locked_until := Some lockedUntil, updated_at := now\<rparr>))"

text \<open>\<^verbatim>\<open>DELETE FROM login_attempts_ip WHERE ip = ?\<close>\<close>

definition delete_login :: "(string \<rightharpoonup> login_row) \<Rightarrow> string \<Rightarrow> (string \<rightharpoonup> login_row)" where
  "delete_login tbl key = tbl(key := None)"

text \<open>\<^verbatim>\<open>INSERT INTO api_rate_limits(identifier, window_start, count) VALUES(?, ?, 1)
  ON CONFLICT(identifier, window_start) DO UPDATE SET count = count + 1
  WHERE api_rate_limits.count < ? RETURNING count\<close>: the new table and the returned row,
  if a row was written.\<close>

definition upsert_count ::
  "((string \<times> int) \<rightharpoonup> int) \<Rightarrow> string \<Rightarrow> int \<Rightarrow> int \<Rightarrow> ((string \<times> int) \<rightharpoonup> int) \<times> int option" where
  "upsert_count tbl identifier windowStart threshold =
     (case tbl (identifier, windowStart) of
        None \<Rightarrow> (tbl((identifier, windowStart) \<mapsto> 1), Some 1)
      | Some c \<Rightarrow>
          if c < threshold then (tbl((identifier, windowStart) \<mapsto> c + 1), Some (c + 1))
          else (tbl, None))"

subsection \<open>Login attempt guard\<close>

record login_check =
  allowed :: bool
  remainingAttempts :: int
  retryAfterSeconds :: "int option"

record login_failure =
  locked :: bool
  lockRetryAfterSeconds :: "int option"

text \<open>\<^verbatim>\<open>const key = ip.trim() || 'unknown'\<close>\<close>

definition login_key :: "string \<Rightarrow> string" where
  "login_key ip = (let t = js_trim ip in if t \<noteq> [] then t else ''unknown'')"

definition checkLoginAttempt :: "rl_state \<Rightarrow> string \<Rightarrow> int \<Rightarrow> login_check \<times> rl_state" where
  "checkLoginAttempt s0 ip now =
     (let s = ensureLoginIpTable s0;
          key = login_key ip
      in case login_attempts_ip s key of
           None \<Rightarrow>
             (\<lparr>allowed = True, remainingAttempts = LOGIN_MAX_ATTEMPTS,
               retryAfterSeconds = None\<rparr>, s)
         | Some row \<Rightarrow>
             if truthy_num (locked_until row) \<and> the (locked_until row) > now then
               (\<lparr>allowed = False, remainingAttempts = 0,
                 retryAfterSeconds = Some (ceil_div_1000 (the (locked_until row) - now))\<rparr>, s)
             else if truthy_num (locked_until row) \<and> the (locked_until row) \<le> now then
               (\<lparr>allowed = True, remainingAttempts = LOGIN_MAX_ATTEMPTS,
                 retryAfterSeconds = None\<rparr>,
                s\<lparr>login_attempts_ip := delete_login (login_attempts_ip s) key\<rparr>)
             else
               (\<lparr>allowed = True,
                 remainingAttempts = max 0 (LOGIN_MAX_ATTEMPTS - js_or (attempts row) 0),
                 retryAfterSeconds = None\<rparr>, s))"

definition recordFailedLogin :: "rl_state \<Rightarrow> string \<Rightarrow> int \<Rightarrow> login_failure \<times> rl_state" where
  "recordFailedLogin s0 ip now =
     (let s = ensureLoginIpTable s0;
          key = login_key ip;
          tbl = upsert_attempt (login_attempts_ip s) key now;
          n = (case tbl key of None \<Rightarrow> 1 | Some row \<Rightarrow> js_or (attempts row) 1)
      in if n \<ge> LOGIN_MAX_ATTEMPTS then
           (let lockedUntil = now + LOGIN_LOCKOUT_MINUTES * 60 * 1000
            in (\<lparr>locked = True, lockRetryAfterSeconds = Some (LOGIN_LOCKOUT_MINUTES * 60)\<rparr>,
                s\<lparr>login_attempts_ip := update_lock tbl lockedUntil now key\<rparr>))
         else
           (\<lparr>locked = False, lockRetryAfterSeconds = None\<rparr>, s\<lparr>login_attempts_ip := tbl\<rparr>))"

definition clearLoginAttempts :: "rl_state \<Rightarrow> string \<Rightarrow> rl_state" where
  "clearLoginAttempts s0 ip =
     (let s = ensureLoginIpTable s0;
          key = login_key ip
      in s\<lparr>login_attempts_ip := delete_login (login_attempts_ip s) key\<rparr>)"

subsection \<open>Write budget limiter\<close>

record budget_result =
  budgetAllowed :: bool
  remaining :: int
  budgetRetryAfterSeconds :: "int option"

definition now_sec :: "int \<Rightarrow> int" where
  "now_sec now = now div 1000"

definition window_start :: "int \<Rightarrow> int" where
  "window_start now = now_sec now - js_rem (now_sec now) API_WINDOW_SECONDS"

definition consumeApiWriteBudget :: "rl_state \<Rightarrow> string \<Rightarrow> int \<Rightarrow> budget_result \<times> rl_state" where
  "consumeApiWriteBudget s identifier now =
     (let nowSec = now_sec now;
          windowStart = nowSec - js_rem nowSec API_WINDOW_SECONDS;
          windowEnd = windowStart + API_WINDOW_SECONDS;
          (tbl, row) = upsert_count (api_rate_limits s) identifier windowStart
                         API_WRITE_REQUESTS_PER_MINUTE
      in case row of
           None \<Rightarrow>
             (\<lparr>budgetAllowed = False, remaining = 0,
               budgetRetryAfterSeconds = Some (windowEnd - nowSec)\<rparr>,
              s\<lparr>api_rate_limits := tbl\<rparr>)
         | Some cnt \<Rightarrow>
             (\<lparr>budgetAllowed = True,
               remaining = max 0 (API_WRITE_REQUESTS_PER_MINUTE - cnt),
               budgetRetryAfterSeconds = None\<rparr>,
              s\<lparr>api_rate_limits := tbl\<rparr>))"

subsection \<open>Identifier resolver\<close>

text \<open>A request is what \<^verbatim>\<open>request.headers.get(name)\<close> returns for each name: \<^verbatim>\<open>null\<close> or the
  header's value.\<close>

record request =
  headers_get :: "string \<Rightarrow> string option"

text \<open>\<^verbatim>\<open>s.split(',')[0]\<close>: the part of \<open>s\<close> before its first comma.\<close>

definition split_comma_first :: "string \<Rightarrow> string" where
  "split_comma_first s = takeWhile (\<lambda>c. c \<noteq> CHR '','') s"

definition getClientIdentifier :: "request \<Rightarrow> string" where
  "getClientIdentifier req =
     (let cfIp = headers_get req ''CF-Connecting-IP'' in
      if truthy_str cfIp then the cfIp
      else
        (let forwardedFor = headers_get req ''X-Forwarded-For'' in
         if truthy_str forwardedFor then js_trim (split_comma_first (the forwardedFor))
         else ''unknown''))"

subsection \<open>Sequences of calls and reachable states\<close>

text \<open>Sequential calls for one identifier, one per clock reading, oldest first: the results
  in order and the final state.\<close>

fun failed_logins :: "rl_state \<Rightarrow> string \<Rightarrow> int list \<Rightarrow> login_failure list \<times> rl_state" where
  "failed_logins s ip [] = ([], s)"
| "failed_logins s ip (now # nows) =
     (let (r, s1) = recordFailedLogin s ip now;
          (rs, s2) = failed_logins s1 ip nows
      in (r # rs, s2))"

fun consume_calls :: "rl_state \<Rightarrow> string \<Rightarrow> int list \<Rightarrow> budget_result list \<times> rl_state" where
  "consume_calls s identifier [] = ([], s)"
| "consume_calls s identifier (now # nows) =
     (let (r, s1) = consumeApiWriteBudget s identifier now;
          (rs, s2) = consume_calls s1 identifier nows
      in (r # rs, s2))"

text \<open>The states the service can reach from empty tables: any operation, on any argument,
  at any clock reading; a cold start resets the process-local flag and keeps the tables.\<close>

inductive reachable :: "rl_state \<Rightarrow> bool" where
  reach_init: "reachable init_state"
| reach_cold: "reachable s \<Longrightarrow> reachable (s\<lparr>loginIpTableReady := False\<rparr>)"
| reach_check: "reachable s \<Longrightarrow> reachable (snd (checkLoginAttempt s ip now))"
| reach_fail: "reachable s \<Longrightarrow> reachable (snd (recordFailedLogin s ip now))"
| reach_clear: "reachable s \<Longrightarrow> reachable (clearLoginAttempts s ip)"
| reach_consume: "reachable s \<Longrightarrow> reachable (snd (consumeApiWriteBudget s identifier now))"

text \<open>The stored count of a window row, a missing row counting as 0.\<close>

definition api_count :: "rl_state \<Rightarrow> string \<times> int \<Rightarrow> int" where
  "api_count s k = (case api_rate_limits s k of None \<Rightarrow> 0 | Some c \<Rightarrow> c)"

subsection \<open>Concurrent calls of the write budget limiter\<close>

text \<open>
  \<^verbatim>\<open>consumeApiWriteBudget\<close> reads the clock, issues exactly one statement against the store
  and computes its result from the returned row. Concurrent invocations share nothing but
  the store, which runs each statement atomically; so an execution of several concurrent
  calls is an interleaving in which, at each step, any one of the calls still pending
  (with the clock reading it took) runs its statement and finishes.
\<close>

datatype budget_call = Pending string int | Done budget_result

inductive conc_step :: "rl_state \<times> budget_call list \<Rightarrow> rl_state \<times> budget_call list \<Rightarrow> bool" where
  conc_stepI: "consumeApiWriteBudget s identifier now = (r, s') \<Longrightarrow>
     conc_step (s, xs @ Pending identifier now # ys) (s', xs @ Done r # ys)"

fun is_done :: "budget_call \<Rightarrow> bool" where
  "is_done (Done r) = True"
| "is_done (Pending identifier now) = False"

fun is_accepted :: "budget_call \<Rightarrow> bool" where
  "is_accepted (Done r) = budgetAllowed r"
| "is_accepted (Pending identifier now) = False"

fun is_rejected :: "budget_call \<Rightarrow> bool" where
  "is_rejected (Done r) = (\<not> budgetAllowed r)"
| "is_rejected (Pending identifier now) = False"

definition accepted_calls :: "budget_call list \<Rightarrow> nat" where
  "accepted_calls ps = length (filter is_accepted ps)"

definition rejected_calls :: "budget_call list \<Rightarrow> nat" where
  "rejected_calls ps = length (filter is_rejected ps)"

definition finished_calls :: "budget_call list \<Rightarrow> nat" where
  "finished_calls ps = length (filter is_done ps)"

subsection \<open>Example states and requests\<close>

text \<open>Four failed logins from \<^verbatim>\<open>1.2.3.4\<close> at seconds 1 to 4, and a fifth at second 5, which
  locks the identifier until millisecond 125000.\<close>

definition four_failures_example :: rl_state where
  "four_failures_example =
     snd (failed_logins init_state ''1.2.3.4'' [1000, 2000, 3000, 4000])"

definition locked_example :: rl_state where
  "locked_example = snd (recordFailedLogin four_failures_example ''1.2.3.4'' 5000)"

text \<open>A request with the given header lines.\<close>

definition request_of :: "(string \<times> string) list \<Rightarrow> request" where
  "request_of hs = \<lparr>headers_get = map_of hs\<rparr>"

section \<open>Properties\<close>

lemmas config_defs = LOGIN_MAX_ATTEMPTS_def LOGIN_LOCKOUT_MINUTES_def
  API_WRITE_REQUESTS_PER_MINUTE_def API_WINDOW_SECONDS_def

text \<open>The integer model of \<^verbatim>\<open>Math.ceil(a / 1000)\<close> is the ceiling of the quotient.\<close>

lemma ceil_div_1000_ceiling: "ceil_div_1000 a = \<lceil>real_of_int a / 1000\<rceil>"
  unfolding ceil_div_1000_def
  by (metis ceiling_divide_eq_div of_int_numeral)

subsection \<open>One call of the write budget limiter\<close>

text \<open>What one call returns and stores, in terms of the stored count of its own row.\<close>

lemma consume_result:
  "fst (consumeApiWriteBudget s identifier now) =
     (if api_count s (identifier, window_start now) < 120
      then \<lparr>budgetAllowed = True,
            remaining = max 0 (120 - (api_count s (identifier, window_start now) + 1)),
            budgetRetryAfterSeconds = None\<rparr>
      else \<lparr>budgetAllowed = False, remaining = 0,
            budgetRetryAfterSeconds = Some (window_start now + 60 - now_sec now)\<rparr>)"
  by (simp add: consumeApiWriteBudget_def upsert_count_def api_count_def window_start_def
      config_defs Let_def split: option.splits)

lemma consume_table:
  "api_rate_limits (snd (consumeApiWriteBudget s identifier now)) =
     (if api_count s (identifier, window_start now) < 120
      then (api_rate_limits s)((identifier, window_start now) \<mapsto>
             api_count s (identifier, window_start now) + 1)
      else api_rate_limits s)"
  by (simp add: consumeApiWriteBudget_def upsert_count_def api_count_def window_start_def
      config_defs Let_def split: option.splits)

lemma consume_count:
  "api_count (snd (consumeApiWriteBudget s identifier now)) (identifier, window_start now) =
     (if api_count s (identifier, window_start now) < 120
      then api_count s (identifier, window_start now) + 1
      else api_count s (identifier, window_start now))"
  by (simp add: api_count_def consume_table)

lemma consume_login_table:
  "login_attempts_ip (snd (consumeApiWriteBudget s identifier now)) = login_attempts_ip s"
  by (simp add: consumeApiWriteBudget_def upsert_count_def Let_def
      split: option.splits prod.splits)

lemma check_api: "api_rate_limits (snd (checkLoginAttempt s ip now)) = api_rate_limits s"
  by (simp add: checkLoginAttempt_def ensureLoginIpTable_def Let_def split: option.splits)

lemma fail_api: "api_rate_limits (snd (recordFailedLogin s ip now)) = api_rate_limits s"
  by (simp add: recordFailedLogin_def ensureLoginIpTable_def Let_def split: option.splits)

lemma clear_api: "api_rate_limits (clearLoginAttempts s ip) = api_rate_limits s"
  by (simp add: clearLoginAttempts_def ensureLoginIpTable_def Let_def)

subsection \<open>The per-window count never exceeds the limit\<close>

lemma consume_keeps_bound:
  assumes "\<forall>k c. api_rate_limits s k = Some c \<longrightarrow> c \<le> 120"
    and "api_rate_limits (snd (consumeApiWriteBudget s identifier now)) k' = Some c'"
  shows "c' \<le> 120"
proof (cases "k' = (identifier, window_start now)")
  case True
  with assms show ?thesis
    by (fastforce simp: consume_table api_count_def split: if_splits option.splits)
next
  case False
  then have "api_rate_limits (snd (consumeApiWriteBudget s identifier now)) k' =
      api_rate_limits s k'"
    by (simp add: consume_table)
  with assms show ?thesis by metis
qed

lemma reachable_bound:
  "reachable s \<Longrightarrow> \<forall>k c. api_rate_limits s k = Some c \<longrightarrow> c \<le> 120"
proof (induction rule: reachable.induct)
  case reach_init
  then show ?case by (simp add: init_state_def)
next
  case (reach_consume s ident now)
  then show ?case using consume_keeps_bound by blast
qed (simp_all add: check_api fail_api clear_api)

text \<open>
  Claim C1. In every reachable state the stored count of every
  \<open>(identifier, windowStart)\<close> row is at most the limit of 120; and every
  \<^verbatim>\<open>consumeApiWriteBudget\<close> call, on any state whose rows respect the bound, yields a state
  whose rows respect it: the upsert adds one only to a count below the limit. The table is
  written by that one statement alone, so the bound holds for every interleaving of
  concurrent invocations as well.
\<close>

theorem write_budget_count_bounded:
  "(reachable s \<longrightarrow> api_rate_limits s (identifier, windowStart) = Some c \<longrightarrow>
      c \<le> API_WRITE_REQUESTS_PER_MINUTE \<and> API_WRITE_REQUESTS_PER_MINUTE = 120) \<and>
   ((\<forall>k n. api_rate_limits s k = Some n \<longrightarrow> n \<le> API_WRITE_REQUESTS_PER_MINUTE) \<longrightarrow>
      api_rate_limits (snd (consumeApiWriteBudget s ident now)) k' = Some c' \<longrightarrow>
      c' \<le> API_WRITE_REQUESTS_PER_MINUTE)"
  unfolding API_WRITE_REQUESTS_PER_MINUTE_def
  using reachable_bound [of s] consume_keeps_bound [of s ident now k' c'] by blast

theorem write_budget_count_bounded_witness:
  "reachable (snd (consumeApiWriteBudget init_state ''1.2.3.4'' 5000)) \<and>
   api_rate_limits (snd (consumeApiWriteBudget init_state ''1.2.3.4'' 5000)) (''1.2.3.4'', 0)
     = Some 1 \<and>
   (1::int) \<le> API_WRITE_REQUESTS_PER_MINUTE \<and>
   api_rate_limits (snd (consumeApiWriteBudget
       (snd (consumeApiWriteBudget init_state ''1.2.3.4'' 5000)) ''1.2.3.4'' 6000))
     (''1.2.3.4'', 0) = Some 2 \<and>
   (2::int) \<le> API_WRITE_REQUESTS_PER_MINUTE \<and>
   api_rate_limits (snd (consumeApiWriteBudget
       (init_state\<lparr>api_rate_limits := [(''1.2.3.4'', 0) \<mapsto> 120]\<rparr>) ''1.2.3.4'' 6000))
     (''1.2.3.4'', 0) = Some 120 \<and>
   (120::int) \<le> API_WRITE_REQUESTS_PER_MINUTE"
proof -
  let ?full = "init_state\<lparr>api_rate_limits := [(''1.2.3.4'', 0) \<mapsto> 120]\<rparr>"
  let ?s = "snd (consumeApiWriteBudget init_state ''1.2.3.4'' 5000)"
  have r: "reachable ?s"
    by (rule reach_consume [OF reach_init])
  have ws: "window_start 5000 = 0" "window_start 6000 = 0"
    by (simp_all add: window_start_def now_sec_def js_rem_def config_defs)
  have c0: "api_count init_state (''1.2.3.4'', 0) = 0"
    by (simp add: api_count_def init_state_def)
  have row1: "api_rate_limits ?s (''1.2.3.4'', 0) = Some 1"
    by (simp add: consume_table ws c0)
  have c1: "api_count ?s (''1.2.3.4'', 0) = 1"
    by (simp add: api_count_def row1)
  have row2: "api_rate_limits (snd (consumeApiWriteBudget ?s ''1.2.3.4'' 6000))
      (''1.2.3.4'', 0) = Some 2"
    by (simp add: consume_table ws c1)
  have bound: "\<forall>k n. api_rate_limits ?s k = Some n \<longrightarrow> n \<le> API_WRITE_REQUESTS_PER_MINUTE"
    using reachable_bound [OF r] by (simp add: config_defs)
  have cfull: "api_count ?full (''1.2.3.4'', 0) = 120"
    by (simp add: api_count_def)
  have rowfull: "api_rate_limits (snd (consumeApiWriteBudget ?full ''1.2.3.4'' 6000))
      (''1.2.3.4'', 0) = Some 120"
    by (simp add: consume_table ws cfull)
  have boundfull:
    "\<forall>k n. api_rate_limits ?full k = Some n \<longrightarrow> n \<le> API_WRITE_REQUESTS_PER_MINUTE"
    by (simp add: config_defs)
  from write_budget_count_bounded [of ?s "''1.2.3.4''" 0 1 "''1.2.3.4''" 6000 "(''1.2.3.4'', 0)" 2]
    write_budget_count_bounded [of ?full "''1.2.3.4''" 0 120 "''1.2.3.4''" 6000
      "(''1.2.3.4'', 0)" 120]
    r row1 row2 bound rowfull boundfull
  show ?thesis by blast
qed

subsection \<open>Sequential calls in one window\<close>

lemma consume_calls_Cons:
  "consume_calls s ident (now # nows) =
     (fst (consumeApiWriteBudget s ident now) #
        fst (consume_calls (snd (consumeApiWriteBudget s ident now)) ident nows),
      snd (consume_calls (snd (consumeApiWriteBudget s ident now)) ident nows))"
  by (simp add: Let_def split: prod.splits)

lemma consume_calls_length: "length (fst (consume_calls s ident nows)) = length nows"
  by (induction nows arbitrary: s) (simp_all add: consume_calls_Cons del: consume_calls.simps(2))

lemma consume_calls_nth:
  assumes "\<forall>t \<in> set nows. window_start t = w" and "i < length nows"
  shows "fst (consume_calls s ident nows) ! i =
     (if api_count s (ident, w) + int i < 120
      then \<lparr>budgetAllowed = True, remaining = 119 - (api_count s (ident, w) + int i),
            budgetRetryAfterSeconds = None\<rparr>
      else \<lparr>budgetAllowed = False, remaining = 0,
            budgetRetryAfterSeconds = Some (w + 60 - now_sec (nows ! i))\<rparr>)"
  using assms
proof (induction nows arbitrary: s i)
  case Nil
  then show ?case by simp
next
  case (Cons now nows)
  from Cons.prems have w: "window_start now = w" and rest: "\<forall>t \<in> set nows. window_start t = w"
    by simp_all
  show ?case
  proof (cases i)
    case 0
    then show ?thesis
      by (simp add: consume_calls_Cons consume_result w del: consume_calls.simps(2))
  next
    case (Suc j)
    with Cons.prems have j: "j < length nows" by simp
    have cnt: "api_count (snd (consumeApiWriteBudget s ident now)) (ident, w) =
        (if api_count s (ident, w) < 120 then api_count s (ident, w) + 1
         else api_count s (ident, w))"
      using consume_count [of s ident now] by (simp add: w)
    show ?thesis
      using Cons.IH [OF rest j, of "snd (consumeApiWriteBudget s ident now)"]
      by (simp add: consume_calls_Cons Suc cnt del: consume_calls.simps(2))
  qed
qed

lemma window_start_aligned:
  assumes "0 \<le> now"
  shows "window_start now mod 60 = 0 \<and> window_start now \<le> now_sec now \<and>
    now_sec now < window_start now + 60"
proof -
  from assms have "0 \<le> now_sec now"
    by (simp add: now_sec_def)
  then have "window_start now = now_sec now - now_sec now mod 60"
    by (simp add: window_start_def js_rem_def API_WINDOW_SECONDS_def sgn_if)
  then show ?thesis by presburger
qed

text \<open>
  Claim C4. For one identifier whose window has no row yet, sequential
  \<^verbatim>\<open>consumeApiWriteBudget\<close> calls in that window are accepted exactly for the first 120
  calls, call number \<open>i + 1\<close> reporting \<open>remaining = 119 - i\<close> (119 down to 0); every later
  call, the 121st in particular, is rejected with \<open>remaining = 0\<close> and
  \<open>retryAfterSeconds = windowStart + 60 - nowSec\<close>, which for a clock at or after the epoch
  is the positive number of whole seconds up to the next boundary of the 60-second grid.
\<close>

theorem consume_fresh_window:
  assumes "api_rate_limits s (ident, w) = None"
    and "\<forall>now \<in> set nows. window_start now = w"
    and "i < length nows"
  shows "fst (consume_calls s ident nows) ! i =
     (if i < 120
      then \<lparr>budgetAllowed = True, remaining = 119 - int i, budgetRetryAfterSeconds = None\<rparr>
      else \<lparr>budgetAllowed = False, remaining = 0,
            budgetRetryAfterSeconds = Some (w + API_WINDOW_SECONDS - now_sec (nows ! i))\<rparr>) \<and>
    (0 \<le> nows ! i \<longrightarrow> w mod API_WINDOW_SECONDS = 0 \<and>
       0 < w + API_WINDOW_SECONDS - now_sec (nows ! i) \<and>
       w + API_WINDOW_SECONDS - now_sec (nows ! i) \<le> API_WINDOW_SECONDS)"
proof -
  from assms(1) have "api_count s (ident, w) = 0"
    by (simp add: api_count_def)
  with consume_calls_nth [OF assms(2,3), of s ident]
  have res: "fst (consume_calls s ident nows) ! i =
     (if i < 120
      then \<lparr>budgetAllowed = True, remaining = 119 - int i, budgetRetryAfterSeconds = None\<rparr>
      else \<lparr>budgetAllowed = False, remaining = 0,
            budgetRetryAfterSeconds = Some (w + API_WINDOW_SECONDS - now_sec (nows ! i))\<rparr>)"
    by (simp add: API_WINDOW_SECONDS_def)
  from assms(2,3) have "window_start (nows ! i) = w"
    by simp
  with window_start_aligned [of "nows ! i"]
  have "0 \<le> nows ! i \<longrightarrow> w mod API_WINDOW_SECONDS = 0 \<and>
       0 < w + API_WINDOW_SECONDS - now_sec (nows ! i) \<and>
       w + API_WINDOW_SECONDS - now_sec (nows ! i) \<le> API_WINDOW_SECONDS"
    by (auto simp: API_WINDOW_SECONDS_def)
  with res show ?thesis by blast
qed

theorem consume_fresh_window_witness:
  "fst (consume_calls init_state ''1.2.3.4'' (replicate 121 5000)) ! 0 =
     \<lparr>budgetAllowed = True, remaining = 119, budgetRetryAfterSeconds = None\<rparr> \<and>
   fst (consume_calls init_state ''1.2.3.4'' (replicate 121 5000)) ! 119 =
     \<lparr>budgetAllowed = True, remaining = 0, budgetRetryAfterSeconds = None\<rparr> \<and>
   fst (consume_calls init_state ''1.2.3.4'' (replicate 121 5000)) ! 120 =
     \<lparr>budgetAllowed = False, remaining = 0, budgetRetryAfterSeconds = Some 55\<rparr>"
proof -
  have fresh: "api_rate_limits init_state (''1.2.3.4'', 0) = None"
    by (simp add: init_state_def)
  have win: "\<forall>now \<in> set (replicate 121 (5000::int)). window_start now = 0"
    by (simp add: window_start_def now_sec_def js_rem_def config_defs)
  have nth: "replicate 121 (5000::int) ! 120 = 5000"
    by simp
  from consume_fresh_window [OF fresh win, of 0]
    consume_fresh_window [OF fresh win, of 119]
    consume_fresh_window [OF fresh win, of 120]
  show ?thesis
    by (simp add: nth now_sec_def API_WINDOW_SECONDS_def)
qed

subsection \<open>Concurrent calls\<close>

lemma conc_step_inv:
  assumes step: "conc_step (s, ps) (s', ps')"
    and pend: "\<forall>p \<in> set ps. \<forall>i n. p = Pending i n \<longrightarrow> i = ident \<and> window_start n = w"
    and c: "c \<le> 120"
    and cnt: "api_count s (ident, w) = min 120 (c + int (finished_calls ps))"
    and acc: "int (accepted_calls ps) = min (int (finished_calls ps)) (120 - c)"
    and rej: "accepted_calls ps + rejected_calls ps = finished_calls ps"
  shows "(\<forall>p \<in> set ps'. \<forall>i n. p = Pending i n \<longrightarrow> i = ident \<and> window_start n = w) \<and>
    api_count s' (ident, w) = min 120 (c + int (finished_calls ps')) \<and>
    int (accepted_calls ps') = min (int (finished_calls ps')) (120 - c) \<and>
    accepted_calls ps' + rejected_calls ps' = finished_calls ps' \<and>
    length ps' = length ps"
  using step
proof (cases rule: conc_step.cases)
  case (conc_stepI i n r xs ys)
  from pend conc_stepI(1) have i: "i = ident" and w: "window_start n = w"
    by simp_all
  from conc_stepI(3) have r: "r = fst (consumeApiWriteBudget s ident n)"
    and s': "s' = snd (consumeApiWriteBudget s ident n)"
    by (simp_all add: i)
  have fin: "finished_calls ps' = Suc (finished_calls ps)"
    by (simp add: conc_stepI finished_calls_def)
  have p': "\<forall>p \<in> set ps'. \<forall>i n. p = Pending i n \<longrightarrow> i = ident \<and> window_start n = w"
    using pend by (auto simp: conc_stepI)
  have len: "length ps' = length ps"
    by (simp add: conc_stepI)
  show ?thesis
  proof (cases "api_count s (ident, w) < 120")
    case True
    then have ra: "budgetAllowed r"
      by (simp add: r consume_result w)
    have "api_count s' (ident, w) = api_count s (ident, w) + 1"
      using True consume_count [of s ident n] by (simp add: s' w)
    moreover have "accepted_calls ps' = Suc (accepted_calls ps)"
      and "rejected_calls ps' = rejected_calls ps"
      using ra by (simp_all add: conc_stepI accepted_calls_def rejected_calls_def)
    ultimately show ?thesis
      using True cnt acc rej c fin p' len by (simp add: min_def split: if_splits)
  next
    case False
    then have ra: "\<not> budgetAllowed r"
      by (simp add: r consume_result w)
    have "api_count s' (ident, w) = api_count s (ident, w)"
      using False consume_count [of s ident n] by (simp add: s' w)
    moreover have "accepted_calls ps' = accepted_calls ps"
      and "rejected_calls ps' = Suc (rejected_calls ps)"
      using ra by (simp_all add: conc_stepI accepted_calls_def rejected_calls_def)
    ultimately show ?thesis
      using False cnt acc rej c fin p' len by (simp add: min_def split: if_splits)
  qed
qed

lemma conc_run_inv:
  assumes run: "conc_step\<^sup>*\<^sup>* (s, ps) (s', ps')"
    and pend: "\<forall>p \<in> set ps. \<forall>i n. p = Pending i n \<longrightarrow> i = ident \<and> window_start n = w"
    and c: "c \<le> 120"
    and cnt: "api_count s (ident, w) = min 120 (c + int (finished_calls ps))"
    and acc: "int (accepted_calls ps) = min (int (finished_calls ps)) (120 - c)"
    and rej: "accepted_calls ps + rejected_calls ps = finished_calls ps"
  shows "(\<forall>p \<in> set ps'. \<forall>i n. p = Pending i n \<longrightarrow> i = ident \<and> window_start n = w) \<and>
    api_count s' (ident, w) = min 120 (c + int (finished_calls ps')) \<and>
    int (accepted_calls ps') = min (int (finished_calls ps')) (120 - c) \<and>
    accepted_calls ps' + rejected_calls ps' = finished_calls ps' \<and>
    length ps' = length ps"
  using run
proof (induction rule: rtranclp_induct2)
  case refl
  from pend cnt acc rej show ?case by simp
next
  case (step s1 ps1 s2 ps2)
  from conc_step_inv [OF step.hyps(2) _ c, of ident w] step.IH
  show ?case by simp
qed

lemma all_done_finished: "\<forall>p \<in> set ps. is_done p \<Longrightarrow> finished_calls ps = length ps"
  by (simp add: finished_calls_def)

lemma pending_counts:
  "finished_calls (map (Pending ident) nows) = 0"
  "accepted_calls (map (Pending ident) nows) = 0"
  "rejected_calls (map (Pending ident) nows) = 0"
  by (simp_all add: finished_calls_def accepted_calls_def rejected_calls_def)

text \<open>The calls of a run may finish in any order, among others in the order of the list; so
  complete runs exist for every list of calls.\<close>

lemma conc_run_sequential:
  "conc_step\<^sup>*\<^sup>* (s, ds @ map (Pending ident) nows)
     (snd (consume_calls s ident nows), ds @ map Done (fst (consume_calls s ident nows)))"
proof (induction nows arbitrary: s ds)
  case Nil
  then show ?case by simp
next
  case (Cons now nows)
  let ?r = "fst (consumeApiWriteBudget s ident now)"
  let ?s = "snd (consumeApiWriteBudget s ident now)"
  have "conc_step (s, ds @ Pending ident now # map (Pending ident) nows)
      (?s, ds @ Done ?r # map (Pending ident) nows)"
    by (rule conc_stepI) simp
  moreover from Cons.IH [of ?s "ds @ [Done ?r]"]
  have "conc_step\<^sup>*\<^sup>* (?s, ds @ Done ?r # map (Pending ident) nows)
      (snd (consume_calls ?s ident nows), ds @ Done ?r # map Done (fst (consume_calls ?s ident nows)))"
    by simp
  ultimately show ?case
    by (simp add: consume_calls_Cons del: consume_calls.simps(2))
qed

text \<open>
  Claim C2. Take \<open>M\<close> concurrent \<^verbatim>\<open>consumeApiWriteBudget\<close> calls for one identifier whose
  clock readings all fall into one window, started when the stored count of that window is
  \<open>c \<le> 120\<close> (no row counting as 0). Whatever the order in which the store runs their
  statements, once all calls have returned exactly \<open>min M (120 - c)\<close> of them were accepted,
  the others were rejected, and the stored count is \<open>min 120 (c + M)\<close>.
\<close>

theorem concurrent_consume_exact:
  assumes "conc_step\<^sup>*\<^sup>* (s, map (Pending ident) nows) (s', ps)"
    and "\<forall>now \<in> set nows. window_start now = w"
    and "api_count s (ident, w) = c"
    and "c \<le> API_WRITE_REQUESTS_PER_MINUTE"
    and "\<forall>p \<in> set ps. is_done p"
  shows "int (accepted_calls ps) = min (int (length nows)) (120 - c) \<and>
    accepted_calls ps + rejected_calls ps = length nows \<and>
    api_count s' (ident, w) = min 120 (c + int (length nows))"
proof -
  from assms(4) have c: "c \<le> 120" by (simp add: API_WRITE_REQUESTS_PER_MINUTE_def)
  have pend: "\<forall>p \<in> set (map (Pending ident) nows).
      \<forall>i n. p = Pending i n \<longrightarrow> i = ident \<and> window_start n = w"
    using assms(2) by auto
  from conc_run_inv [OF assms(1) pend c] assms(3) c
  have inv: "api_count s' (ident, w) = min 120 (c + int (finished_calls ps)) \<and>
    int (accepted_calls ps) = min (int (finished_calls ps)) (120 - c) \<and>
    accepted_calls ps + rejected_calls ps = finished_calls ps \<and>
    length ps = length nows"
    by (simp add: pending_counts)
  with all_done_finished [OF assms(5)] show ?thesis by simp
qed

theorem concurrent_consume_exact_witness:
  "int (accepted_calls (map Done (fst (consume_calls
      (init_state\<lparr>api_rate_limits := [(''1.2.3.4'', 0) \<mapsto> 119]\<rparr>) ''1.2.3.4''
      [5000, 1000, 59999])))) = 1 \<and>
   rejected_calls (map Done (fst (consume_calls
      (init_state\<lparr>api_rate_limits := [(''1.2.3.4'', 0) \<mapsto> 119]\<rparr>) ''1.2.3.4''
      [5000, 1000, 59999]))) = 2 \<and>
   api_count (snd (consume_calls
      (init_state\<lparr>api_rate_limits := [(''1.2.3.4'', 0) \<mapsto> 119]\<rparr>) ''1.2.3.4''
      [5000, 1000, 59999])) (''1.2.3.4'', 0) = 120"
proof -
  let ?s = "init_state\<lparr>api_rate_limits := [(''1.2.3.4'', 0) \<mapsto> 119]\<rparr>"
  let ?nows = "[5000, 1000, 59999 :: int]"
  have run: "conc_step\<^sup>*\<^sup>* (?s, map (Pending ''1.2.3.4'') ?nows)
      (snd (consume_calls ?s ''1.2.3.4'' ?nows),
       map Done (fst (consume_calls ?s ''1.2.3.4'' ?nows)))"
    using conc_run_sequential [of ?s "[]" "''1.2.3.4''" ?nows] by simp
  have win: "\<forall>now \<in> set ?nows. window_start now = 0"
    by (simp add: window_start_def now_sec_def js_rem_def config_defs)
  have cnt: "api_count ?s (''1.2.3.4'', 0) = 119"
    by (simp add: api_count_def)
  have lim: "(119::int) \<le> API_WRITE_REQUESTS_PER_MINUTE"
    by (simp add: config_defs)
  have fin: "\<forall>p \<in> set (map Done (fst (consume_calls ?s ''1.2.3.4'' ?nows))). is_done p"
    by simp
  from concurrent_consume_exact [OF run win cnt lim fin]
  show ?thesis by simp
qed

subsection \<open>The login attempt guard, case by case\<close>


lemma ensure_login [simp]: "login_attempts_ip (ensureLoginIpTable s) = login_attempts_ip s"
  by (simp add: ensureLoginIpTable_def)

lemma check_no_record:
  assumes "login_attempts_ip s (login_key ip) = None"
  shows "checkLoginAttempt s ip now =
    (\<lparr>allowed = True, remainingAttempts = 5, retryAfterSeconds = None\<rparr>, ensureLoginIpTable s)"
  using assms by (simp add: checkLoginAttempt_def Let_def config_defs)

lemma check_locked:
  assumes "login_attempts_ip s (login_key ip) = Some row"
    and "locked_until row = Some lu" and "lu \<noteq> 0" and "now < lu"
  shows "checkLoginAttempt s ip now =
    (\<lparr>allowed = False, remainingAttempts = 0,
      retryAfterSeconds = Some (ceil_div_1000 (lu - now))\<rparr>, ensureLoginIpTable s)"
  using assms by (simp add: checkLoginAttempt_def Let_def truthy_num_def)

lemma check_expired:
  assumes "login_attempts_ip s (login_key ip) = Some row"
    and "locked_until row = Some lu" and "lu \<noteq> 0" and "lu \<le> now"
  shows "checkLoginAttempt s ip now =
    (\<lparr>allowed = True, remainingAttempts = 5, retryAfterSeconds = None\<rparr>,
     (ensureLoginIpTable s)\<lparr>login_attempts_ip := (login_attempts_ip s)(login_key ip := None)\<rparr>)"
  using assms
  by (simp add: checkLoginAttempt_def Let_def truthy_num_def delete_login_def config_defs)

lemma check_unlocked:
  assumes "login_attempts_ip s (login_key ip) = Some row"
    and "locked_until row = None"
  shows "checkLoginAttempt s ip now =
    (\<lparr>allowed = True, remainingAttempts = max 0 (5 - attempts row),
      retryAfterSeconds = None\<rparr>, ensureLoginIpTable s)"
  using assms by (simp add: checkLoginAttempt_def Let_def truthy_num_def js_or_def config_defs)

lemma check_other_key:
  assumes "k \<noteq> login_key ip"
  shows "login_attempts_ip (snd (checkLoginAttempt s ip now)) k = login_attempts_ip s k"
  using assms
  by (simp add: checkLoginAttempt_def Let_def delete_login_def split: option.splits)

lemma login_row_updates:
  fixes r :: login_row
  shows "r\<lparr>attempts := a, updated_at := u\<rparr> =
      \<lparr>attempts = a, locked_until = locked_until r, updated_at = u\<rparr>"
    and "r\<lparr>attempts := a, updated_at := u, locked_until := l, updated_at := u'\<rparr> =
      \<lparr>attempts = a, locked_until = l, updated_at = u'\<rparr>"
  by (cases r, simp)+

text \<open>\<^verbatim>\<open>recordFailedLogin\<close> in one piece: the stored attempts \<open>a\<close> after the upsert, the value
  \<open>n\<close> compared with the threshold, and the row written.\<close>

lemma recordFailedLogin_eq:
  "recordFailedLogin s ip now =
    (let key = login_key ip;
         a = (case login_attempts_ip s key of None \<Rightarrow> 1 | Some r \<Rightarrow> attempts r + 1);
         lu = (case login_attempts_ip s key of None \<Rightarrow> None | Some r \<Rightarrow> locked_until r);
         n = (if a \<noteq> 0 then a else 1)
     in if 5 \<le> n
        then (\<lparr>locked = True, lockRetryAfterSeconds = Some 120\<rparr>,
              (ensureLoginIpTable s)\<lparr>login_attempts_ip := (login_attempts_ip s)(key \<mapsto>
                 \<lparr>attempts = a, locked_until = Some (now + 120000), updated_at = now\<rparr>)\<rparr>)
        else (\<lparr>locked = False, lockRetryAfterSeconds = None\<rparr>,
              (ensureLoginIpTable s)\<lparr>login_attempts_ip := (login_attempts_ip s)(key \<mapsto>
                 \<lparr>attempts = a, locked_until = lu, updated_at = now\<rparr>)\<rparr>))"
  by (auto simp: recordFailedLogin_def upsert_attempt_def update_lock_def Let_def config_defs
      js_or_def login_row_updates split: option.splits)

lemma clear_table:
  "login_attempts_ip (clearLoginAttempts s ip) = (login_attempts_ip s)(login_key ip := None)"
  by (simp add: clearLoginAttempts_def Let_def delete_login_def)


lemma failed_logins_Cons:
  "failed_logins s ip (now # nows) =
     (fst (recordFailedLogin s ip now) #
        fst (failed_logins (snd (recordFailedLogin s ip now)) ip nows),
      snd (failed_logins (snd (recordFailedLogin s ip now)) ip nows))"
  by (simp add: Let_def split: prod.splits)

lemma failed_logins_open:
  assumes "case login_attempts_ip s (login_key ip) of None \<Rightarrow> a = 0
           | Some r \<Rightarrow> attempts r = a \<and> locked_until r = None"
    and "0 \<le> a" and "a + int (length nows) < 5"
  shows "fst (failed_logins s ip nows) =
      replicate (length nows) \<lparr>locked = False, lockRetryAfterSeconds = None\<rparr> \<and>
    (case login_attempts_ip (snd (failed_logins s ip nows)) (login_key ip) of
       None \<Rightarrow> a + int (length nows) = 0
     | Some r \<Rightarrow> attempts r = a + int (length nows) \<and> locked_until r = None)"
  using assms
proof (induction nows arbitrary: s a)
  case Nil
  then show ?case by (simp split: option.splits)
next
  case (Cons now nows)
  let ?s = "snd (recordFailedLogin s ip now)"
  from Cons.prems have r: "fst (recordFailedLogin s ip now) =
      \<lparr>locked = False, lockRetryAfterSeconds = None\<rparr>"
    by (auto simp: recordFailedLogin_eq Let_def split: option.splits)
  from Cons.prems have row: "case login_attempts_ip ?s (login_key ip) of None \<Rightarrow> a + 1 = 0
      | Some r \<Rightarrow> attempts r = a + 1 \<and> locked_until r = None"
    by (auto simp: recordFailedLogin_eq Let_def split: option.splits)
  from Cons.prems have "0 \<le> a + 1" and "a + 1 + int (length nows) < 5"
    by simp_all
  from Cons.IH [OF row this] r show ?case
    by (auto simp: failed_logins_Cons add.assoc simp del: failed_logins.simps(2)
        split: option.splits)
qed

lemma ceil_div_1000_bounds:
  assumes "0 < d" and "d \<le> 120000"
  shows "0 < ceil_div_1000 d \<and> ceil_div_1000 d \<le> 120"
  using assms unfolding ceil_div_1000_def by linarith

text \<open>The example states, evaluated.\<close>

lemma login_key_example: "login_key ''1.2.3.4'' = ''1.2.3.4''"
  by (simp add: login_key_def js_trim_def is_js_space_def)

lemma init_no_record: "login_attempts_ip init_state k = None"
  by (simp add: init_state_def)

lemma four_failures_row:
  "login_attempts_ip four_failures_example ''1.2.3.4'' =
     Some \<lparr>attempts = 4, locked_until = None, updated_at = 4000\<rparr>"
  by (simp add: four_failures_example_def recordFailedLogin_eq init_state_def
      login_key_example Let_def)

lemma locked_example_row:
  "login_attempts_ip locked_example ''1.2.3.4'' =
     Some \<lparr>attempts = 5, locked_until = Some 125000, updated_at = 5000\<rparr>"
  by (simp add: locked_example_def recordFailedLogin_eq four_failures_row login_key_example
      Let_def)

lemma locked_example_locked:
  "fst (recordFailedLogin four_failures_example ''1.2.3.4'' 5000) =
     \<lparr>locked = True, lockRetryAfterSeconds = Some 120\<rparr>"
  by (simp add: recordFailedLogin_eq four_failures_row login_key_example Let_def)

subsection \<open>Failures, locks and resets\<close>

text \<open>
  Claim C5. Starting from no record for an identifier: any \<open>k < 5\<close> sequential
  \<^verbatim>\<open>recordFailedLogin\<close> calls (so each of the first four) return \<open>{locked: false}\<close>, and after
  them \<^verbatim>\<open>checkLoginAttempt\<close> reports \<open>allowed = true\<close> with
  \<open>remainingAttempts = MAX_ATTEMPTS - k\<close>; the fifth call returns
  \<open>{locked: true, retryAfterSeconds: 120}\<close> and stores \<open>lockedUntil = now + 2 minutes\<close>
  (in milliseconds). The clock readings are arbitrary.
\<close>

theorem five_failures_lock:
  assumes "login_attempts_ip s (login_key ip) = None"
  shows "(length nows < 5 \<longrightarrow>
      fst (failed_logins s ip nows) =
        replicate (length nows) \<lparr>locked = False, lockRetryAfterSeconds = None\<rparr> \<and>
      fst (checkLoginAttempt (snd (failed_logins s ip nows)) ip now) =
        \<lparr>allowed = True, remainingAttempts = LOGIN_MAX_ATTEMPTS - int (length nows),
         retryAfterSeconds = None\<rparr>) \<and>
    (length nows = 4 \<longrightarrow>
      fst (recordFailedLogin (snd (failed_logins s ip nows)) ip now) =
        \<lparr>locked = True, lockRetryAfterSeconds = Some 120\<rparr> \<and>
      map_option locked_until
        (login_attempts_ip (snd (recordFailedLogin (snd (failed_logins s ip nows)) ip now))
           (login_key ip)) = Some (Some (now + 2 * 60 * 1000))) \<and>
    LOGIN_MAX_ATTEMPTS = 5"
proof -
  let ?s = "snd (failed_logins s ip nows)"
  from assms have start: "case login_attempts_ip s (login_key ip) of None \<Rightarrow> (0::int) = 0
      | Some r \<Rightarrow> attempts r = 0 \<and> locked_until r = None"
    by simp
  have "fst (failed_logins s ip nows) =
        replicate (length nows) \<lparr>locked = False, lockRetryAfterSeconds = None\<rparr> \<and>
      fst (checkLoginAttempt ?s ip now) =
        \<lparr>allowed = True, remainingAttempts = LOGIN_MAX_ATTEMPTS - int (length nows),
         retryAfterSeconds = None\<rparr>"
    if len: "length nows < 5"
  proof -
    from len failed_logins_open [OF start, of nows]
    have res: "fst (failed_logins s ip nows) =
        replicate (length nows) \<lparr>locked = False, lockRetryAfterSeconds = None\<rparr>"
      and row: "case login_attempts_ip ?s (login_key ip) of
         None \<Rightarrow> 0 + int (length nows) = 0
       | Some r \<Rightarrow> attempts r = 0 + int (length nows) \<and> locked_until r = None"
      by simp_all
    from row len have "fst (checkLoginAttempt ?s ip now) =
        \<lparr>allowed = True, remainingAttempts = LOGIN_MAX_ATTEMPTS - int (length nows),
         retryAfterSeconds = None\<rparr>"
      by (auto simp: check_no_record check_unlocked config_defs split: option.splits)
    with res show ?thesis by simp
  qed
  moreover have "fst (recordFailedLogin ?s ip now) =
        \<lparr>locked = True, lockRetryAfterSeconds = Some 120\<rparr> \<and>
      map_option locked_until
        (login_attempts_ip (snd (recordFailedLogin ?s ip now)) (login_key ip)) =
        Some (Some (now + 2 * 60 * 1000))"
    if len: "length nows = 4"
  proof -
    from len failed_logins_open [OF start, of nows]
    have "case login_attempts_ip ?s (login_key ip) of
         None \<Rightarrow> 0 + int (length nows) = 0
       | Some r \<Rightarrow> attempts r = 0 + int (length nows) \<and> locked_until r = None"
      by simp
    with len show ?thesis
      by (auto simp: recordFailedLogin_eq Let_def split: option.splits)
  qed
  ultimately show ?thesis by (simp add: LOGIN_MAX_ATTEMPTS_def)
qed


theorem five_failures_lock_witness:
  "fst (failed_logins init_state ''1.2.3.4'' [1000, 2000, 3000, 4000]) =
     [\<lparr>locked = False, lockRetryAfterSeconds = None\<rparr>,
      \<lparr>locked = False, lockRetryAfterSeconds = None\<rparr>,
      \<lparr>locked = False, lockRetryAfterSeconds = None\<rparr>,
      \<lparr>locked = False, lockRetryAfterSeconds = None\<rparr>] \<and>
   fst (checkLoginAttempt (snd (failed_logins init_state ''1.2.3.4'' [1000, 2000, 3000, 4000]))
      ''1.2.3.4'' 5000) =
     \<lparr>allowed = True, remainingAttempts = 1, retryAfterSeconds = None\<rparr> \<and>
   fst (recordFailedLogin (snd (failed_logins init_state ''1.2.3.4'' [1000, 2000, 3000, 4000]))
      ''1.2.3.4'' 5000) =
     \<lparr>locked = True, lockRetryAfterSeconds = Some 120\<rparr> \<and>
   map_option locked_until
     (login_attempts_ip
        (snd (recordFailedLogin
           (snd (failed_logins init_state ''1.2.3.4'' [1000, 2000, 3000, 4000]))
           ''1.2.3.4'' 5000))
        ''1.2.3.4'') = Some (Some 125000)"
proof -
  have len: "length [1000, 2000, 3000, 4000 :: int] = 4"
    by simp
  have rep: "replicate 4 x = [x, x, x, x]" for x :: login_failure
    by (simp add: numeral_eq_Suc)
  from five_failures_lock [where s = init_state and ip = "''1.2.3.4''"
      and nows = "[1000, 2000, 3000, 4000]" and now = 5000, OF init_no_record]
  show ?thesis
    unfolding len rep login_key_example LOGIN_MAX_ATTEMPTS_def by simp
qed

text \<open>
  Claim C7. For an identifier whose record holds an active lock (\<open>lockedUntil > now\<close>),
  \<^verbatim>\<open>checkLoginAttempt\<close> returns \<open>allowed = false\<close>, \<open>remainingAttempts = 0\<close> and
  \<open>retryAfterSeconds = ceil((lockedUntil - now) / 1000)\<close>, leaving the tables as they are.
  And when \<^verbatim>\<open>recordFailedLogin\<close> has just locked the identifier at clock \<open>t_lock\<close>, a check at any
  clock \<open>t_check\<close> from \<open>t_lock\<close> up to the expiry reports \<open>0 < retryAfterSeconds \<le> 120\<close>.
  A stored \<open>lockedUntil\<close> is a clock reading plus 120000 ms, so it is not the falsy
  number 0: the clock is at or after the epoch.
\<close>

theorem active_lock_check:
  "(login_attempts_ip s (login_key ip) = Some row \<longrightarrow> locked_until row = Some lu \<longrightarrow>
      lu \<noteq> 0 \<longrightarrow> now < lu \<longrightarrow>
      checkLoginAttempt s ip now =
        (\<lparr>allowed = False, remainingAttempts = 0,
          retryAfterSeconds = Some \<lceil>real_of_int (lu - now) / 1000\<rceil>\<rparr>,
         ensureLoginIpTable s)) \<and>
   (locked (fst (recordFailedLogin s ip t_lock)) \<longrightarrow> 0 \<le> t_lock \<longrightarrow> t_lock \<le> t_check \<longrightarrow>
      t_check < t_lock + 120000 \<longrightarrow>
      (\<exists>r. fst (checkLoginAttempt (snd (recordFailedLogin s ip t_lock)) ip t_check) =
          \<lparr>allowed = False, remainingAttempts = 0, retryAfterSeconds = Some r\<rparr> \<and>
        0 < r \<and> r \<le> 120))"
proof -
  have "\<exists>r. fst (checkLoginAttempt (snd (recordFailedLogin s ip t_lock)) ip t_check) =
          \<lparr>allowed = False, remainingAttempts = 0, retryAfterSeconds = Some r\<rparr> \<and>
        0 < r \<and> r \<le> 120"
    if l: "locked (fst (recordFailedLogin s ip t_lock))" and t: "0 \<le> t_lock" "t_lock \<le> t_check" "t_check < t_lock + 120000"
  proof -
    let ?s = "snd (recordFailedLogin s ip t_lock)"
    from l obtain a where row: "login_attempts_ip ?s (login_key ip) =
        Some \<lparr>attempts = a, locked_until = Some (t_lock + 120000), updated_at = t_lock\<rparr>"
      by (auto simp: recordFailedLogin_eq Let_def split: if_splits)
    from t have "t_lock + 120000 \<noteq> 0" by simp
    from check_locked [OF row _ this t(3)]
    have "fst (checkLoginAttempt ?s ip t_check) =
        \<lparr>allowed = False, remainingAttempts = 0,
         retryAfterSeconds = Some (ceil_div_1000 (t_lock + 120000 - t_check))\<rparr>"
      by simp
    moreover from t have "0 < t_lock + 120000 - t_check" and "t_lock + 120000 - t_check \<le> 120000"
      by simp_all
    ultimately show ?thesis
      using ceil_div_1000_bounds by blast
  qed
  then show ?thesis
    by (auto simp: check_locked ceil_div_1000_ceiling)
qed

theorem active_lock_check_witness:
  "checkLoginAttempt locked_example ''1.2.3.4'' 5001 =
     (\<lparr>allowed = False, remainingAttempts = 0, retryAfterSeconds = Some 120\<rparr>,
      ensureLoginIpTable locked_example) \<and>
   (\<exists>r. fst (checkLoginAttempt (snd (recordFailedLogin four_failures_example ''1.2.3.4'' 5000))
        ''1.2.3.4'' 124999) =
      \<lparr>allowed = False, remainingAttempts = 0, retryAfterSeconds = Some r\<rparr> \<and>
      0 < r \<and> r \<le> 120)"
  using active_lock_check [where s = locked_example and ip = "''1.2.3.4''"
      and row = "\<lparr>attempts = 5, locked_until = Some 125000, updated_at = 5000\<rparr>"
      and lu = 125000 and now = 5001]
    active_lock_check [where s = four_failures_example and ip = "''1.2.3.4''"
      and t_lock = 5000 and t_check = 124999]
  by (simp add: locked_example_row locked_example_locked login_key_example)

lemma fail_other_key:
  assumes "k \<noteq> login_key ip"
  shows "login_attempts_ip (snd (recordFailedLogin s ip now)) k = login_attempts_ip s k"
  using assms by (simp add: recordFailedLogin_eq Let_def)

lemma fail_row:
  assumes "login_attempts_ip s (login_key ip) = Some row"
  shows "login_attempts_ip (snd (recordFailedLogin s ip now)) (login_key ip) =
    Some \<lparr>attempts = attempts row + 1,
      locked_until = (if LOGIN_MAX_ATTEMPTS \<le> js_or (attempts row + 1) 1
                      then Some (now + 120000) else locked_until row),
      updated_at = now\<rparr>"
  using assms by (simp add: recordFailedLogin_eq Let_def js_or_def config_defs)

text \<open>
  Claim C6, amended. For an identifier whose record carries a \<open>lockedUntil\<close> at or before
  the current time, \<^verbatim>\<open>checkLoginAttempt\<close> deletes the record and returns \<open>allowed = true\<close>
  with \<open>remainingAttempts = MAX_ATTEMPTS = 5\<close>. There is no background sweep, and this read
  and the explicit \<^verbatim>\<open>clearLoginAttempts\<close> of the identifier are the only operations that
  remove the record: a check before the expiry and every operation on another identifier
  leave it as it is, \<^verbatim>\<open>recordFailedLogin\<close> keeps it with \<open>attempts + 1\<close> and with the old lock
  or, from the fifth attempt on, a new one, and \<^verbatim>\<open>consumeApiWriteBudget\<close> does not touch the
  table. As above, the stored \<open>lockedUntil\<close> is not 0.
\<close>

theorem expired_lock_lazy_reset:
  assumes "login_attempts_ip s (login_key ip) = Some row"
    and "locked_until row = Some lu" and "lu \<noteq> 0" and "lu \<le> now"
  shows "checkLoginAttempt s ip now =
      (\<lparr>allowed = True, remainingAttempts = LOGIN_MAX_ATTEMPTS, retryAfterSeconds = None\<rparr>,
       (ensureLoginIpTable s)\<lparr>login_attempts_ip :=
          (login_attempts_ip s)(login_key ip := None)\<rparr>) \<and>
    LOGIN_MAX_ATTEMPTS = 5 \<and>
    login_attempts_ip (snd (checkLoginAttempt s ip now)) (login_key ip) = None \<and>
    login_attempts_ip (clearLoginAttempts s ip) (login_key ip) = None \<and>
    (t < lu \<longrightarrow>
       login_attempts_ip (snd (checkLoginAttempt s ip t)) (login_key ip) = Some row) \<and>
    login_attempts_ip (snd (recordFailedLogin s ip t)) (login_key ip) =
      Some \<lparr>attempts = attempts row + 1,
        locked_until = (if LOGIN_MAX_ATTEMPTS \<le> js_or (attempts row + 1) 1
                        then Some (t + 120000) else Some lu),
        updated_at = t\<rparr> \<and>
    login_attempts_ip (snd (consumeApiWriteBudget s ident t)) = login_attempts_ip s \<and>
    (login_key ip' \<noteq> login_key ip \<longrightarrow>
       login_attempts_ip (snd (checkLoginAttempt s ip' t)) (login_key ip) = Some row \<and>
       login_attempts_ip (snd (recordFailedLogin s ip' t)) (login_key ip) = Some row \<and>
       login_attempts_ip (clearLoginAttempts s ip') (login_key ip) = Some row)"
proof -
  have "login_attempts_ip (snd (checkLoginAttempt s ip t)) (login_key ip) = Some row"
    if "t < lu"
    using check_locked [OF assms(1,2,3) that] assms(1) by simp
  moreover have "login_attempts_ip (snd (checkLoginAttempt s ip' t)) (login_key ip) = Some row \<and>
       login_attempts_ip (snd (recordFailedLogin s ip' t)) (login_key ip) = Some row \<and>
       login_attempts_ip (clearLoginAttempts s ip') (login_key ip) = Some row"
    if "login_key ip' \<noteq> login_key ip"
    using that assms(1) check_other_key [of "login_key ip" ip' s t]
      fail_other_key [of "login_key ip" ip' s t]
    by (simp add: clear_table)
  moreover have "login_attempts_ip (snd (recordFailedLogin s ip t)) (login_key ip) =
      Some \<lparr>attempts = attempts row + 1,
        locked_until = (if LOGIN_MAX_ATTEMPTS \<le> js_or (attempts row + 1) 1
                        then Some (t + 120000) else Some lu),
        updated_at = t\<rparr>"
    using fail_row [OF assms(1), of t] assms(2) by simp
  ultimately show ?thesis
    using check_expired [OF assms]
    by (simp add: config_defs consume_login_table clear_table)
qed

theorem expired_lock_lazy_reset_witness:
  "checkLoginAttempt locked_example ''1.2.3.4'' 125000 =
     (\<lparr>allowed = True, remainingAttempts = 5, retryAfterSeconds = None\<rparr>,
      (ensureLoginIpTable locked_example)\<lparr>login_attempts_ip :=
         (login_attempts_ip locked_example)(''1.2.3.4'' := None)\<rparr>) \<and>
   login_attempts_ip (snd (checkLoginAttempt locked_example ''1.2.3.4'' 125000))
     ''1.2.3.4'' = None \<and>
   login_attempts_ip (clearLoginAttempts locked_example ''1.2.3.4'') ''1.2.3.4'' = None \<and>
   login_attempts_ip (snd (checkLoginAttempt locked_example ''1.2.3.4'' 124999)) ''1.2.3.4'' =
     Some \<lparr>attempts = 5, locked_until = Some 125000, updated_at = 5000\<rparr> \<and>
   login_attempts_ip (snd (recordFailedLogin locked_example ''1.2.3.4'' 200000)) ''1.2.3.4'' =
     Some \<lparr>attempts = 6, locked_until = Some 320000, updated_at = 200000\<rparr> \<and>
   login_attempts_ip (snd (consumeApiWriteBudget locked_example ''1.2.3.4'' 200000)) =
     login_attempts_ip locked_example \<and>
   login_attempts_ip (snd (checkLoginAttempt locked_example ''5.6.7.8'' 200000)) ''1.2.3.4'' =
     Some \<lparr>attempts = 5, locked_until = Some 125000, updated_at = 5000\<rparr> \<and>
   login_attempts_ip (snd (recordFailedLogin locked_example ''5.6.7.8'' 200000)) ''1.2.3.4'' =
     Some \<lparr>attempts = 5, locked_until = Some 125000, updated_at = 5000\<rparr> \<and>
   login_attempts_ip (clearLoginAttempts locked_example ''5.6.7.8'') ''1.2.3.4'' =
     Some \<lparr>attempts = 5, locked_until = Some 125000, updated_at = 5000\<rparr>"
proof -
  have other: "login_key ''5.6.7.8'' = ''5.6.7.8''"
    by (simp add: login_key_def js_trim_def is_js_space_def)
  from expired_lock_lazy_reset [where s = locked_example and ip = "''1.2.3.4''"
      and row = "\<lparr>attempts = 5, locked_until = Some 125000, updated_at = 5000\<rparr>"
      and lu = 125000 and now = 125000 and ip' = "''5.6.7.8''" and t = 124999
      and ident = "''1.2.3.4''"]
    expired_lock_lazy_reset [where s = locked_example and ip = "''1.2.3.4''"
      and row = "\<lparr>attempts = 5, locked_until = Some 125000, updated_at = 5000\<rparr>"
      and lu = 125000 and now = 125000 and ip' = "''5.6.7.8''" and t = 200000
      and ident = "''1.2.3.4''"]
  show ?thesis
    by (simp add: LOGIN_MAX_ATTEMPTS_def js_or_def locked_example_row login_key_example other)
qed

text \<open>
  Claim C6 as stated fails in its last clause: the read is not the only operation that
  clears an expired lock. In the example state the lock of \<^verbatim>\<open>1.2.3.4\<close> expired at millisecond
  125000, and \<^verbatim>\<open>clearLoginAttempts\<close>, which reads no clock, deletes the record.
\<close>

theorem expired_lock_clear_counterexample:
  "login_attempts_ip locked_example ''1.2.3.4'' =
     Some \<lparr>attempts = 5, locked_until = Some 125000, updated_at = 5000\<rparr> \<and>
   (125000 :: int) \<le> 200000 \<and>
   fst (checkLoginAttempt locked_example ''1.2.3.4'' 200000) =
     \<lparr>allowed = True, remainingAttempts = 5, retryAfterSeconds = None\<rparr> \<and>
   login_attempts_ip (clearLoginAttempts locked_example ''1.2.3.4'') ''1.2.3.4'' = None"
  by (simp add: clear_table locked_example_row login_key_example check_expired)

text \<open>
  Claim C8. \<^verbatim>\<open>clearLoginAttempts\<close> deletes the identifier's record whatever the state before,
  so \<^verbatim>\<open>clearLoginAttempts\<close> followed by \<^verbatim>\<open>checkLoginAttempt\<close> yields \<open>allowed = true\<close> with
  \<open>remainingAttempts = MAX_ATTEMPTS = 5\<close>, for every identifier, state and clock reading.
\<close>

theorem clear_then_check:
  "login_attempts_ip (clearLoginAttempts s ip) = (login_attempts_ip s)(login_key ip := None) \<and>
   fst (checkLoginAttempt (clearLoginAttempts s ip) ip now) =
     \<lparr>allowed = True, remainingAttempts = LOGIN_MAX_ATTEMPTS, retryAfterSeconds = None\<rparr> \<and>
   LOGIN_MAX_ATTEMPTS = 5"
  by (simp add: clear_table check_no_record config_defs)

text \<open>
  Claim C3, amended. For an identifier whose record holds a lock that has expired, the next
  \<^verbatim>\<open>checkLoginAttempt\<close> deletes the record and reports the identifier open, and a
  \<^verbatim>\<open>recordFailedLogin\<close> issued after that check is a first failure on a fresh record.
  \<^verbatim>\<open>recordFailedLogin\<close> itself never reads \<open>lockedUntil\<close>: issued on the record with the
  expired lock it keeps the record and continues the old count (\<open>attempts + 1\<close>), and with
  four or more attempts stored it locks again.
\<close>

theorem expired_lock_check_then_fail:
  assumes "login_attempts_ip s (login_key ip) = Some row"
    and "locked_until row = Some lu" and "lu \<noteq> 0" and "lu \<le> now"
  shows "login_attempts_ip (snd (checkLoginAttempt s ip now)) (login_key ip) = None \<and>
    fst (checkLoginAttempt s ip now) =
      \<lparr>allowed = True, remainingAttempts = 5, retryAfterSeconds = None\<rparr> \<and>
    recordFailedLogin (snd (checkLoginAttempt s ip now)) ip now' =
      (\<lparr>locked = False, lockRetryAfterSeconds = None\<rparr>,
       (ensureLoginIpTable s)\<lparr>login_attempts_ip := (login_attempts_ip s)(login_key ip \<mapsto>
          \<lparr>attempts = 1, locked_until = None, updated_at = now'\<rparr>)\<rparr>) \<and>
    (\<exists>row'. login_attempts_ip (snd (recordFailedLogin s ip now)) (login_key ip) = Some row' \<and>
       attempts row' = attempts row + 1 \<and>
       (locked_until row' = Some lu \<or> locked_until row' = Some (now + 120000))) \<and>
    (4 \<le> attempts row \<longrightarrow>
       fst (recordFailedLogin s ip now) = \<lparr>locked = True, lockRetryAfterSeconds = Some 120\<rparr>)"
proof -
  have "ensureLoginIpTable (ensureLoginIpTable s\<lparr>login_attempts_ip := tbl\<rparr>) =
      ensureLoginIpTable s\<lparr>login_attempts_ip := tbl\<rparr>" for tbl
    by (simp add: ensureLoginIpTable_def)
  then show ?thesis
    using assms by (simp add: check_expired recordFailedLogin_eq Let_def)
qed

theorem expired_lock_check_then_fail_witness:
  "login_attempts_ip (snd (checkLoginAttempt locked_example ''1.2.3.4'' 200000))
     ''1.2.3.4'' = None \<and>
   fst (recordFailedLogin (snd (checkLoginAttempt locked_example ''1.2.3.4'' 200000))
      ''1.2.3.4'' 200001) = \<lparr>locked = False, lockRetryAfterSeconds = None\<rparr> \<and>
   (\<exists>row'. login_attempts_ip (snd (recordFailedLogin locked_example ''1.2.3.4'' 200000))
       ''1.2.3.4'' = Some row' \<and> attempts row' = 6) \<and>
   fst (recordFailedLogin locked_example ''1.2.3.4'' 200000) =
     \<lparr>locked = True, lockRetryAfterSeconds = Some 120\<rparr>"
  using expired_lock_check_then_fail [where s = locked_example and ip = "''1.2.3.4''"
      and row = "\<lparr>attempts = 5, locked_until = Some 125000, updated_at = 5000\<rparr>"
      and lu = 125000 and now = 200000 and now' = 200001]
  by (simp add: locked_example_row login_key_example) blast

text \<open>
  Claim C3 as stated fails: in the example state the lock of \<^verbatim>\<open>1.2.3.4\<close> expired at
  millisecond 125000; a \<^verbatim>\<open>recordFailedLogin\<close> at millisecond 200000 is not a first failure on
  a fresh record, it returns \<open>locked = true\<close> and leaves the record with 6 attempts and a
  new lock.
\<close>

theorem expired_lock_record_counterexample:
  "login_attempts_ip locked_example ''1.2.3.4'' =
     Some \<lparr>attempts = 5, locked_until = Some 125000, updated_at = 5000\<rparr> \<and>
   recordFailedLogin locked_example ''1.2.3.4'' 200000 \<noteq>
     (\<lparr>locked = False, lockRetryAfterSeconds = None\<rparr>,
      (ensureLoginIpTable locked_example)\<lparr>login_attempts_ip :=
         (login_attempts_ip locked_example)(''1.2.3.4'' \<mapsto>
            \<lparr>attempts = 1, locked_until = None, updated_at = 200000\<rparr>)\<rparr>) \<and>
   fst (recordFailedLogin locked_example ''1.2.3.4'' 200000) =
     \<lparr>locked = True, lockRetryAfterSeconds = Some 120\<rparr> \<and>
   login_attempts_ip (snd (recordFailedLogin locked_example ''1.2.3.4'' 200000))
       ''1.2.3.4'' =
     Some \<lparr>attempts = 6, locked_until = Some 320000, updated_at = 200000\<rparr>"
  by (simp add: recordFailedLogin_eq Let_def locked_example_row login_key_example)

subsection \<open>Identifier normalisation\<close>

lemma dropWhile_no_space_head:
  assumes "xs \<noteq> []" and "\<not> P (hd xs)"
  shows "dropWhile P xs = xs"
  using assms by (cases xs) simp_all

lemma js_trim_head:
  assumes "js_trim s \<noteq> []"
  shows "\<not> is_js_space (hd (js_trim s))"
proof -
  let ?t = "dropWhile is_js_space s"
  have ne: "?t \<noteq> []"
  proof
    assume "?t = []"
    then have "js_trim s = []"
      unfolding js_trim_def by (simp only: rev.simps dropWhile.simps)
    with assms show False by simp
  qed
  then obtain x t' where t: "?t = x # t'"
    by (cases ?t) auto
  with hd_dropWhile [OF ne] have x: "\<not> is_js_space x"
    by simp
  then have "dropWhile is_js_space (rev ?t) = dropWhile is_js_space (rev t') @ [x]"
    by (simp add: t dropWhile_append3)
  then have "js_trim s = x # rev (dropWhile is_js_space (rev t'))"
    by (simp add: js_trim_def)
  with x show ?thesis by simp
qed

lemma js_trim_idem: "js_trim (js_trim s) = js_trim s"
proof (cases "js_trim s = []")
  case True
  have "js_trim [] = []"
    by (simp add: js_trim_def)
  with True show ?thesis by simp
next
  case False
  have front: "dropWhile is_js_space (js_trim s) = js_trim s"
    using False js_trim_head [OF False]
    by (rule dropWhile_no_space_head [where P = is_js_space])
  have rear: "rev (js_trim s) = dropWhile is_js_space (rev (dropWhile is_js_space s))"
    by (simp add: js_trim_def)
  have "js_trim (js_trim s) =
      rev (dropWhile is_js_space (rev (dropWhile is_js_space (js_trim s))))"
    by (rule js_trim_def)
  also have "\<dots> = rev (dropWhile is_js_space (rev (js_trim s)))"
    by (simp only: front)
  also have "\<dots> = rev (dropWhile is_js_space (rev (dropWhile is_js_space s)))"
    by (simp only: rear dropWhile_idem)
  also have "\<dots> = js_trim s"
    by (simp only: js_trim_def)
  finally show ?thesis .
qed

lemma js_trim_all_space:
  assumes "\<forall>c \<in> set s. is_js_space c"
  shows "js_trim s = []"
proof -
  from assms have "dropWhile is_js_space s = []"
    by simp
  then show ?thesis
    unfolding js_trim_def by (simp only: rev.simps dropWhile.simps)
qed

lemma login_key_trim: "login_key (js_trim ip) = login_key ip"
  by (simp add: login_key_def js_trim_idem)

lemma login_key_unknown: "login_key ''unknown'' = ''unknown''"
  by (simp add: login_key_def js_trim_def is_js_space_def)

lemma login_key_all_space:
  assumes "\<forall>c \<in> set ip. is_js_space c"
  shows "login_key ip = login_key ''unknown''"
  using js_trim_all_space [OF assms] by (simp add: login_key_def login_key_unknown [unfolded login_key_def])

lemma checkLoginAttempt_key:
  "login_key ip = login_key ip' \<Longrightarrow> checkLoginAttempt s ip now = checkLoginAttempt s ip' now"
  by (simp add: checkLoginAttempt_def)

lemma recordFailedLogin_key:
  "login_key ip = login_key ip' \<Longrightarrow> recordFailedLogin s ip now = recordFailedLogin s ip' now"
  by (simp add: recordFailedLogin_def)

lemma clearLoginAttempts_key:
  "login_key ip = login_key ip' \<Longrightarrow> clearLoginAttempts s ip = clearLoginAttempts s ip'"
  by (simp add: clearLoginAttempts_def)

lemma consume_row_written:
  "api_rate_limits (snd (consumeApiWriteBudget s identifier now)) (identifier, window_start now)
     \<noteq> None"
  by (auto simp: consume_table api_count_def split: option.splits)

text \<open>
  Claim C10. The three operations of the login guard use their argument only through
  \<^verbatim>\<open>ip.trim() || 'unknown'\<close>: each returns the same result and state on \<open>ip\<close> and on the
  trimmed \<open>ip\<close>, and an empty or whitespace-only \<open>ip\<close> is keyed as \<^verbatim>\<open>unknown\<close>. An \<open>ip\<close>
  that is not blank is keyed by its trimmed form: \<^verbatim>\<open>recordFailedLogin\<close> writes the row of the
  trimmed \<open>ip\<close>, \<^verbatim>\<open>clearLoginAttempts\<close> deletes it, \<^verbatim>\<open>checkLoginAttempt\<close> answers from it, and
  none of the three changes a row under another key.
  \<^verbatim>\<open>consumeApiWriteBudget\<close> writes the row keyed by the identifier exactly as given (and
  the window start) and no other row.
\<close>

theorem login_guard_normalizes_identifier:
  "checkLoginAttempt s (js_trim ip) now = checkLoginAttempt s ip now \<and>
   recordFailedLogin s (js_trim ip) now = recordFailedLogin s ip now \<and>
   clearLoginAttempts s (js_trim ip) = clearLoginAttempts s ip \<and>
   ((\<forall>c \<in> set ip. is_js_space c) \<longrightarrow>
      login_key ip = ''unknown'' \<and>
      checkLoginAttempt s ip now = checkLoginAttempt s ''unknown'' now \<and>
      recordFailedLogin s ip now = recordFailedLogin s ''unknown'' now \<and>
      clearLoginAttempts s ip = clearLoginAttempts s ''unknown'') \<and>
   api_rate_limits (snd (consumeApiWriteBudget s ident now)) (ident, window_start now)
     \<noteq> None \<and>
   (k \<noteq> (ident, window_start now) \<longrightarrow>
      api_rate_limits (snd (consumeApiWriteBudget s ident now)) k = api_rate_limits s k) \<and>
   login_key ip = (if js_trim ip \<noteq> [] then js_trim ip else ''unknown'') \<and>
   (js_trim ip \<noteq> [] \<longrightarrow>
      login_key ip = js_trim ip \<and>
      login_attempts_ip (snd (recordFailedLogin s ip now)) (js_trim ip) \<noteq> None \<and>
      login_attempts_ip (clearLoginAttempts s ip) (js_trim ip) = None \<and>
      (login_attempts_ip s (js_trim ip) = None \<longrightarrow>
         fst (checkLoginAttempt s ip now) =
           \<lparr>allowed = True, remainingAttempts = 5, retryAfterSeconds = None\<rparr>) \<and>
      (login_attempts_ip s (js_trim ip) = Some row \<longrightarrow> locked_until row = None \<longrightarrow>
         fst (checkLoginAttempt s ip now) =
           \<lparr>allowed = True, remainingAttempts = max 0 (5 - attempts row),
            retryAfterSeconds = None\<rparr>) \<and>
      (kl \<noteq> js_trim ip \<longrightarrow>
         login_attempts_ip (snd (checkLoginAttempt s ip now)) kl = login_attempts_ip s kl \<and>
         login_attempts_ip (snd (recordFailedLogin s ip now)) kl = login_attempts_ip s kl \<and>
         login_attempts_ip (clearLoginAttempts s ip) kl = login_attempts_ip s kl))"
proof -
  have key: "login_key ip = (if js_trim ip \<noteq> [] then js_trim ip else ''unknown'')"
    by (simp add: login_key_def)
  have trimmed: "login_key ip = js_trim ip \<and>
      login_attempts_ip (snd (recordFailedLogin s ip now)) (js_trim ip) \<noteq> None \<and>
      login_attempts_ip (clearLoginAttempts s ip) (js_trim ip) = None \<and>
      (login_attempts_ip s (js_trim ip) = None \<longrightarrow>
         fst (checkLoginAttempt s ip now) =
           \<lparr>allowed = True, remainingAttempts = 5, retryAfterSeconds = None\<rparr>) \<and>
      (login_attempts_ip s (js_trim ip) = Some row \<longrightarrow> locked_until row = None \<longrightarrow>
         fst (checkLoginAttempt s ip now) =
           \<lparr>allowed = True, remainingAttempts = max 0 (5 - attempts row),
            retryAfterSeconds = None\<rparr>) \<and>
      (kl \<noteq> js_trim ip \<longrightarrow>
         login_attempts_ip (snd (checkLoginAttempt s ip now)) kl = login_attempts_ip s kl \<and>
         login_attempts_ip (snd (recordFailedLogin s ip now)) kl = login_attempts_ip s kl \<and>
         login_attempts_ip (clearLoginAttempts s ip) kl = login_attempts_ip s kl)"
    if ne: "js_trim ip \<noteq> []"
  proof -
    from ne key have k: "js_trim ip = login_key ip"
      by simp
    have "login_attempts_ip (snd (recordFailedLogin s ip now)) (login_key ip) \<noteq> None"
      by (simp add: recordFailedLogin_eq Let_def)
    moreover have "login_attempts_ip (clearLoginAttempts s ip) (login_key ip) = None"
      by (simp add: clear_table)
    moreover have "kl \<noteq> login_key ip \<longrightarrow>
         login_attempts_ip (snd (checkLoginAttempt s ip now)) kl = login_attempts_ip s kl \<and>
         login_attempts_ip (snd (recordFailedLogin s ip now)) kl = login_attempts_ip s kl \<and>
         login_attempts_ip (clearLoginAttempts s ip) kl = login_attempts_ip s kl"
      by (simp add: check_other_key fail_other_key clear_table)
    ultimately show ?thesis
      unfolding k by (simp add: check_no_record check_unlocked)
  qed
  have "login_key ip = ''unknown'' \<and>
      checkLoginAttempt s ip now = checkLoginAttempt s ''unknown'' now \<and>
      recordFailedLogin s ip now = recordFailedLogin s ''unknown'' now \<and>
      clearLoginAttempts s ip = clearLoginAttempts s ''unknown''"
    if "\<forall>c \<in> set ip. is_js_space c"
    using login_key_all_space [OF that] checkLoginAttempt_key recordFailedLogin_key
      clearLoginAttempts_key login_key_unknown by simp
  moreover have "k \<noteq> (ident, window_start now) \<Longrightarrow>
      api_rate_limits (snd (consumeApiWriteBudget s ident now)) k = api_rate_limits s k"
    by (simp add: consume_table)
  ultimately show ?thesis
    using checkLoginAttempt_key [OF login_key_trim] recordFailedLogin_key [OF login_key_trim]
      clearLoginAttempts_key [OF login_key_trim] consume_row_written key trimmed
    by blast
qed

theorem login_guard_normalizes_identifier_witness:
  "checkLoginAttempt locked_example (js_trim '' 1.2.3.4  '') 6000 =
     checkLoginAttempt locked_example '' 1.2.3.4  '' 6000 \<and>
   recordFailedLogin locked_example (js_trim '' 1.2.3.4  '') 6000 =
     recordFailedLogin locked_example '' 1.2.3.4  '' 6000 \<and>
   clearLoginAttempts locked_example (js_trim '' 1.2.3.4  '') =
     clearLoginAttempts locked_example '' 1.2.3.4  '' \<and>
   login_key ''   '' = ''unknown'' \<and>
   checkLoginAttempt locked_example ''   '' 6000 =
     checkLoginAttempt locked_example ''unknown'' 6000 \<and>
   recordFailedLogin locked_example ''   '' 6000 =
     recordFailedLogin locked_example ''unknown'' 6000 \<and>
   clearLoginAttempts locked_example ''   '' = clearLoginAttempts locked_example ''unknown'' \<and>
   api_rate_limits (snd (consumeApiWriteBudget init_state '' 1.2.3.4'' 5000))
     ('' 1.2.3.4'', window_start 5000) \<noteq> None \<and>
   api_rate_limits (snd (consumeApiWriteBudget init_state '' 1.2.3.4'' 5000))
     (''1.2.3.4'', window_start 5000) = api_rate_limits init_state (''1.2.3.4'', window_start 5000) \<and>
   login_key '' 1.2.3.4  '' = ''1.2.3.4'' \<and>
   login_attempts_ip (snd (recordFailedLogin init_state '' 1.2.3.4  '' 6000)) ''1.2.3.4''
     \<noteq> None \<and>
   login_attempts_ip (snd (recordFailedLogin init_state '' 1.2.3.4  '' 6000)) '' 1.2.3.4  ''
     = None \<and>
   login_attempts_ip (clearLoginAttempts locked_example '' 1.2.3.4  '') ''1.2.3.4'' = None \<and>
   fst (checkLoginAttempt four_failures_example '' 1.2.3.4  '' 6000) =
     \<lparr>allowed = True, remainingAttempts = 1, retryAfterSeconds = None\<rparr> \<and>
   fst (checkLoginAttempt init_state '' 1.2.3.4  '' 6000) =
     \<lparr>allowed = True, remainingAttempts = 5, retryAfterSeconds = None\<rparr>"
proof -
  have sp: "\<forall>c \<in> set ''   ''. is_js_space c"
    by (simp add: is_js_space_def)
  have tr: "js_trim '' 1.2.3.4  '' = ''1.2.3.4''"
    by (simp add: js_trim_def is_js_space_def)
  from login_guard_normalizes_identifier [where s = locked_example and ip = "'' 1.2.3.4  ''"
      and now = 6000]
    login_guard_normalizes_identifier [where s = locked_example and ip = "''   ''"
      and now = 6000]
    login_guard_normalizes_identifier [where s = init_state and ident = "'' 1.2.3.4''"
      and now = 5000 and k = "(''1.2.3.4'', window_start 5000)"]
    login_guard_normalizes_identifier [where s = init_state and ip = "'' 1.2.3.4  ''"
      and now = 6000 and kl = "'' 1.2.3.4  ''"]
    login_guard_normalizes_identifier [where s = locked_example and ip = "'' 1.2.3.4  ''"]
    login_guard_normalizes_identifier [where s = four_failures_example
      and ip = "'' 1.2.3.4  ''" and now = 6000
      and row = "\<lparr>attempts = 4, locked_until = None, updated_at = 4000\<rparr>"]
    sp
  show ?thesis
    by (simp add: tr init_no_record four_failures_row)
qed

subsection \<open>The identifier resolver\<close>

text \<open>
  Claim C9, amended. \<^verbatim>\<open>getClientIdentifier\<close> returns the \<^verbatim>\<open>CF-Connecting-IP\<close> header when it
  is present and non-empty; otherwise the first comma-separated entry of \<^verbatim>\<open>X-Forwarded-For\<close>,
  trimmed, when that header is present and non-empty; otherwise \<^verbatim>\<open>unknown\<close>. With
  \<^verbatim>\<open>CF-Connecting-IP: 9.9.9.9\<close> and \<^verbatim>\<open>X-Forwarded-For: 1.1.1.1, 2.2.2.2\<close> it returns
  \<^verbatim>\<open>9.9.9.9\<close>, with the forwarded-for header alone \<^verbatim>\<open>1.1.1.1\<close>, with neither \<^verbatim>\<open>unknown\<close>.
\<close>

theorem client_identifier_precedence:
  "(headers_get req ''CF-Connecting-IP'' = Some cfIp \<longrightarrow> cfIp \<noteq> [] \<longrightarrow>
      getClientIdentifier req = cfIp) \<and>
   ((headers_get req ''CF-Connecting-IP'' = None \<or>
     headers_get req ''CF-Connecting-IP'' = Some []) \<longrightarrow>
    headers_get req ''X-Forwarded-For'' = Some forwardedFor \<longrightarrow> forwardedFor \<noteq> [] \<longrightarrow>
      getClientIdentifier req = js_trim (split_comma_first forwardedFor)) \<and>
   ((headers_get req ''CF-Connecting-IP'' = None \<or>
     headers_get req ''CF-Connecting-IP'' = Some []) \<longrightarrow>
    (headers_get req ''X-Forwarded-For'' = None \<or>
     headers_get req ''X-Forwarded-For'' = Some []) \<longrightarrow>
      getClientIdentifier req = ''unknown'')"
  by (auto simp: getClientIdentifier_def truthy_str_def Let_def)

theorem client_identifier_precedence_witness:
  "getClientIdentifier (request_of
      [(''CF-Connecting-IP'', ''9.9.9.9''), (''X-Forwarded-For'', ''1.1.1.1, 2.2.2.2'')]) =
     ''9.9.9.9'' \<and>
   getClientIdentifier (request_of [(''X-Forwarded-For'', ''1.1.1.1, 2.2.2.2'')]) = ''1.1.1.1'' \<and>
   getClientIdentifier (request_of []) = ''unknown''"
proof -
  have trim: "js_trim (split_comma_first ''1.1.1.1, 2.2.2.2'') = ''1.1.1.1''"
    by (simp add: js_trim_def split_comma_first_def is_js_space_def)
  from client_identifier_precedence [where req = "request_of
        [(''CF-Connecting-IP'', ''9.9.9.9''), (''X-Forwarded-For'', ''1.1.1.1, 2.2.2.2'')]"
      and cfIp = "''9.9.9.9''"]
    client_identifier_precedence [where req = "request_of [(''X-Forwarded-For'', ''1.1.1.1, 2.2.2.2'')]"
      and forwardedFor = "''1.1.1.1, 2.2.2.2''"]
    client_identifier_precedence [where req = "request_of []"]
  show ?thesis
    by (simp add: request_of_def trim)
qed

text \<open>
  Claim C9 as stated fails for a forwarded-for header that is present and empty: its first
  entry, trimmed, is the empty string, and the code returns \<^verbatim>\<open>unknown\<close>.
\<close>

theorem client_identifier_empty_forwarded_counterexample:
  "headers_get (request_of [(''X-Forwarded-For'', [])]) ''CF-Connecting-IP'' = None \<and>
   headers_get (request_of [(''X-Forwarded-For'', [])]) ''X-Forwarded-For'' = Some [] \<and>
   getClientIdentifier (request_of [(''X-Forwarded-For'', [])]) = ''unknown'' \<and>
   getClientIdentifier (request_of [(''X-Forwarded-For'', [])]) \<noteq>
     js_trim (split_comma_first [])"
  by (simp add: request_of_def getClientIdentifier_def truthy_str_def js_trim_def
      split_comma_first_def)

end
